theory Spec2Isabelle
  imports Complex_Main
begin

section \<open>JavaScript values\<close>

text \<open>
  The cells of a matrix and the state of the generator are JavaScript numbers, and a read
  outside an array gives \<open>undefined\<close>. A number is modelled as an exact real or one of
  the three special values \<open>NaN\<close>, \<open>+Infinity\<close>, \<open>-Infinity\<close>. The arithmetic is the
  one of ECMAScript with two idealisations: results are not rounded to binary64 (so a
  finite result never overflows to an infinity), and there is one zero, which behaves as
  \<open>+0\<close>. \<open>undefined\<close> is converted to \<open>NaN\<close> by every arithmetic operator and every
  comparison, as \<open>ToNumber\<close> does.
\<close>

datatype jsval = Undefined | Num real | NaN | PosInf | NegInf

datatype error = AssertionFailed | TypeError

fun js_neg :: "jsval \<Rightarrow> jsval" where
  "js_neg (Num a) = Num (- a)"
| "js_neg PosInf = NegInf"
| "js_neg NegInf = PosInf"
| "js_neg NaN = NaN"
| "js_neg Undefined = NaN"

text \<open>\<open>a + b\<close>\<close>

fun js_add :: "jsval \<Rightarrow> jsval \<Rightarrow> jsval" where
  "js_add (Num a) (Num b) = Num (a + b)"
| "js_add (Num a) PosInf = PosInf"
| "js_add (Num a) NegInf = NegInf"
| "js_add PosInf (Num b) = PosInf"
| "js_add PosInf PosInf = PosInf"
| "js_add NegInf (Num b) = NegInf"
| "js_add NegInf NegInf = NegInf"
| "js_add _ _ = NaN"

text \<open>\<open>a - b\<close>, which is \<open>a + (-b)\<close> for every pair of numbers.\<close>

definition js_sub :: "jsval \<Rightarrow> jsval \<Rightarrow> jsval" where
  "js_sub a b = js_add a (js_neg b)"

text \<open>\<open>a * b\<close>\<close>

fun js_mul :: "jsval \<Rightarrow> jsval \<Rightarrow> jsval" where
  "js_mul (Num a) (Num b) = Num (a * b)"
| "js_mul (Num a) PosInf = (if a = 0 then NaN else if 0 < a then PosInf else NegInf)"
| "js_mul (Num a) NegInf = (if a = 0 then NaN else if 0 < a then NegInf else PosInf)"
| "js_mul PosInf (Num b) = (if b = 0 then NaN else if 0 < b then PosInf else NegInf)"
| "js_mul NegInf (Num b) = (if b = 0 then NaN else if 0 < b then NegInf else PosInf)"
| "js_mul PosInf PosInf = PosInf"
| "js_mul PosInf NegInf = NegInf"
| "js_mul NegInf PosInf = NegInf"
| "js_mul NegInf NegInf = PosInf"
| "js_mul _ _ = NaN"

text \<open>\<open>a / b\<close>; the zero divisor is \<open>+0\<close>.\<close>

fun js_div :: "jsval \<Rightarrow> jsval \<Rightarrow> jsval" where
  "js_div (Num a) (Num b) =
     (if b = 0 then (if a = 0 then NaN else if 0 < a then PosInf else NegInf)
      else Num (a / b))"
| "js_div (Num a) PosInf = Num 0"
| "js_div (Num a) NegInf = Num 0"
| "js_div PosInf (Num b) = (if 0 \<le> b then PosInf else NegInf)"
| "js_div NegInf (Num b) = (if 0 \<le> b then NegInf else PosInf)"
| "js_div _ _ = NaN"

text \<open>\<open>a % b\<close>: the remainder has the sign of the dividend (truncated division).\<close>

definition js_trunc :: "real \<Rightarrow> int" where
  "js_trunc t = (if 0 \<le> t then \<lfloor>t\<rfloor> else \<lceil>t\<rceil>)"

fun js_rem :: "jsval \<Rightarrow> jsval \<Rightarrow> jsval" where
  "js_rem (Num a) (Num b) =
     (if b = 0 then NaN else Num (a - b * of_int (js_trunc (a / b))))"
| "js_rem (Num a) PosInf = Num a"
| "js_rem (Num a) NegInf = Num a"
| "js_rem _ _ = NaN"

text \<open>\<open>a > b\<close>, \<open>a >= b\<close>, \<open>a <= b\<close>: false as soon as one side is \<open>NaN\<close>.\<close>

fun js_gt :: "jsval \<Rightarrow> jsval \<Rightarrow> bool" where
  "js_gt (Num a) (Num b) = (b < a)"
| "js_gt (Num a) NegInf = True"
| "js_gt PosInf (Num b) = True"
| "js_gt PosInf NegInf = True"
| "js_gt _ _ = False"

fun js_ge :: "jsval \<Rightarrow> jsval \<Rightarrow> bool" where
  "js_ge (Num a) (Num b) = (b \<le> a)"
| "js_ge (Num a) NegInf = True"
| "js_ge PosInf (Num b) = True"
| "js_ge PosInf NegInf = True"
| "js_ge PosInf PosInf = True"
| "js_ge NegInf NegInf = True"
| "js_ge _ _ = False"

definition js_le :: "jsval \<Rightarrow> jsval \<Rightarrow> bool" where
  "js_le a b = js_ge b a"

text \<open>\<open>Number.isInteger(x)\<close>\<close>

fun isInteger :: "jsval \<Rightarrow> bool" where
  "isInteger (Num a) = (of_int \<lfloor>a\<rfloor> = a)"
| "isInteger _ = False"

text \<open>\<open>Math.sqrt(x)\<close>\<close>

fun js_sqrt :: "jsval \<Rightarrow> jsval" where
  "js_sqrt (Num a) = (if a < 0 then NaN else Num (sqrt a))"
| "js_sqrt PosInf = PosInf"
| "js_sqrt _ = NaN"

text \<open>
  \<open>a ** b\<close> (\<open>Number::exponentiate\<close>): a zero exponent gives 1 for every base, also for
  \<open>NaN\<close>; a negative base with an exponent that is not an integer gives \<open>NaN\<close>.
\<close>

definition oddInteger :: "real \<Rightarrow> bool" where
  "oddInteger y = (of_int \<lfloor>y\<rfloor> = y \<and> odd \<lfloor>y\<rfloor>)"

fun js_pow :: "jsval \<Rightarrow> jsval \<Rightarrow> jsval" where
  "js_pow b (Num y) =
     (if y = 0 then Num 1
      else case b of
        Undefined \<Rightarrow> NaN
      | NaN \<Rightarrow> NaN
      | PosInf \<Rightarrow> (if 0 < y then PosInf else Num 0)
      | NegInf \<Rightarrow> (if 0 < y then (if oddInteger y then NegInf else PosInf) else Num 0)
      | Num x \<Rightarrow>
          (if 0 < x then Num (x powr y)
           else if x = 0 then (if 0 < y then Num 0 else PosInf)
           else if of_int \<lfloor>y\<rfloor> = y then Num (x powi \<lfloor>y\<rfloor>)
           else NaN))"
| "js_pow b PosInf =
     (case b of
        Num x \<Rightarrow> (if 1 < \<bar>x\<bar> then PosInf else if \<bar>x\<bar> = 1 then NaN else Num 0)
      | PosInf \<Rightarrow> PosInf
      | NegInf \<Rightarrow> PosInf
      | _ \<Rightarrow> NaN)"
| "js_pow b NegInf =
     (case b of
        Num x \<Rightarrow> (if 1 < \<bar>x\<bar> then Num 0 else if \<bar>x\<bar> = 1 then NaN else PosInf)
      | PosInf \<Rightarrow> Num 0
      | NegInf \<Rightarrow> Num 0
      | _ \<Rightarrow> NaN)"
| "js_pow b NaN = NaN"
| "js_pow b Undefined = NaN"

text \<open>\<open>x | 0\<close>: \<open>ToInt32\<close>, truncation followed by wrap-around into 32 signed bits.\<close>

fun toInt32 :: "jsval \<Rightarrow> int" where
  "toInt32 (Num a) = (js_trunc a + 2 ^ 31) mod 2 ^ 32 - 2 ^ 31"
| "toInt32 _ = 0"

section \<open>The Wichmann-Hill generator\<close>

text \<open>
  \<open>assert(fn)\<close> throws when \<open>fn()\<close> is not truthy; the three assertions of
  \<open>validateWichmannHillStateInteger\<close> run in the order of the source.
\<close>

definition validateWichmannHillStateInteger :: "jsval \<Rightarrow> error + jsval" where
  "validateWichmannHillStateInteger x =
     (if \<not> isInteger x then Inl AssertionFailed
      else if \<not> js_ge x (Num 1) then Inl AssertionFailed
      else if \<not> js_le x (Num 30000) then Inl AssertionFailed
      else Inr x)"

record generator =
  s1 :: jsval
  s2 :: jsval
  s3 :: jsval

text \<open>\<open>state[i]\<close>: \<open>undefined\<close> beyond the end of the array.\<close>

definition elemAt :: "jsval list \<Rightarrow> nat \<Rightarrow> jsval" where
  "elemAt xs i = (if i < length xs then xs ! i else Undefined)"

definition WichmannHillGenerator :: "jsval list \<Rightarrow> generator" where
  "WichmannHillGenerator state = \<lparr>s1 = elemAt state 0, s2 = elemAt state 1, s3 = elemAt state 2\<rparr>"

text \<open>\<open>state.map(validateWichmannHillStateInteger)\<close>: the first failing assertion throws.\<close>

fun mapValidate :: "jsval list \<Rightarrow> error + jsval list" where
  "mapValidate [] = Inr []"
| "mapValidate (x # xs) =
     (case validateWichmannHillStateInteger x of
        Inl e \<Rightarrow> Inl e
      | Inr v \<Rightarrow> (case mapValidate xs of Inl e \<Rightarrow> Inl e | Inr vs \<Rightarrow> Inr (v # vs)))"

definition WichmannHillGenerator_with :: "jsval list \<Rightarrow> error + generator" where
  "WichmannHillGenerator_with state =
     (case mapValidate state of
        Inl e \<Rightarrow> Inl e
      | Inr vs \<Rightarrow> Inr (WichmannHillGenerator vs))"

text \<open>\<open>next()\<close> returns the drawn value and the updated generator.\<close>

definition WichmannHillGenerator_next :: "generator \<Rightarrow> jsval \<times> generator" where
  "WichmannHillGenerator_next g =
     (let t1 = js_rem (js_mul (Num 171) (s1 g)) (Num 30269);
          t2 = js_rem (js_mul (Num 172) (s2 g)) (Num 30307);
          t3 = js_rem (js_mul (Num 170) (s3 g)) (Num 30323)
      in (js_rem (js_add (js_add (js_div t1 (Num 30269)) (js_div t2 (Num 30307)))
                         (js_div t3 (Num 30323)))
                 (Num 1),
          \<lparr>s1 = t1, s2 = t2, s3 = t3\<rparr>))"

section \<open>Matrices\<close>

text \<open>
  A matrix is a JavaScript array that also carries the properties \<open>width\<close> and
  \<open>height\<close>. The array is modelled by its integer-keyed properties and its
  \<open>length\<close>: \<open>props m k\<close> is \<open>None\<close> where the array has no property \<open>k\<close> (a
  hole, a key beyond the end, or a negative key never written). A write at a key
  \<open>k \<ge> length\<close> extends the array to length \<open>k + 1\<close>; a write at a negative key
  creates an ordinary property and leaves the length alone; a read of an absent key gives
  \<open>undefined\<close>. Array lengths are not bounded (no \<open>RangeError\<close> at \<open>2^32\<close>).
  The source mutates arrays in place; here every operation returns the updated matrix.
  The source and the destination of \<open>blitMatrix\<close> and \<open>addMatrix\<close> are distinct
  objects, as in every call of the program.
\<close>

record matrix =
  props :: "int \<Rightarrow> jsval option"
  alength :: nat
  width :: nat
  height :: nat

text \<open>\<open>array[k]\<close> and \<open>array[k] = v\<close>\<close>

definition readAt :: "matrix \<Rightarrow> int \<Rightarrow> jsval" where
  "readAt m k = (case props m k of None \<Rightarrow> Undefined | Some v \<Rightarrow> v)"

definition writeAt :: "matrix \<Rightarrow> int \<Rightarrow> jsval \<Rightarrow> matrix" where
  "writeAt m k v =
     m\<lparr>props := (props m)(k \<mapsto> v),
       alength := (if 0 \<le> k then max (alength m) (nat k + 1) else alength m)\<rparr>"

text \<open>\<open>new Array(width * height).fill(initialValue)\<close>\<close>

definition makeMatrix :: "nat \<Rightarrow> nat \<Rightarrow> jsval \<Rightarrow> matrix" where
  "makeMatrix w h initialValue =
     \<lparr>props = (\<lambda>k. if 0 \<le> k \<and> k < int (w * h) then Some initialValue else None),
      alength = w * h, width = w, height = h\<rparr>"

text \<open>\<open>slice()\<close> copies the elements (holes included), not the other properties.\<close>

definition copyMatrix :: "matrix \<Rightarrow> matrix" where
  "copyMatrix m =
     \<lparr>props = (\<lambda>k. if 0 \<le> k \<and> k < int (alength m) then props m k else None),
      alength = alength m, width = width m, height = height m\<rparr>"

text \<open>The flat index \<open>y * matrix.height + x\<close> of \<open>getXY\<close> and \<open>setXY\<close>.\<close>

definition indexXY :: "matrix \<Rightarrow> int \<Rightarrow> int \<Rightarrow> int" where
  "indexXY m x y = y * int (height m) + x"

definition getXY :: "matrix \<Rightarrow> int \<Rightarrow> int \<Rightarrow> jsval" where
  "getXY m x y = readAt m (indexXY m x y)"

definition setXY :: "matrix \<Rightarrow> int \<Rightarrow> int \<Rightarrow> jsval \<Rightarrow> matrix" where
  "setXY m x y v = writeAt m (indexXY m x y) v"

text \<open>
  \<open>array.reduce((x, y) => x > y ? x : y)\<close>: \<open>reduce\<close> visits the elements that are
  present, in order, and throws a \<open>TypeError\<close> when there is none.
\<close>

definition elements :: "matrix \<Rightarrow> jsval list" where
  "elements m = List.map_filter (\<lambda>i. props m (int i)) [0..<alength m]"

definition larger :: "jsval \<Rightarrow> jsval \<Rightarrow> jsval" where
  "larger x y = (if js_gt x y then x else y)"

fun reduceLarger :: "jsval list \<Rightarrow> error + jsval" where
  "reduceLarger [] = Inl TypeError"
| "reduceLarger (v # vs) = Inr (foldl larger v vs)"

definition maxValueOf :: "matrix \<Rightarrow> error + jsval" where
  "maxValueOf array = reduceLarger (elements array)"

text \<open>The two nested loops of \<open>mapMatrix\<close>: \<open>x\<close> outside, \<open>y\<close> inside.\<close>

definition mapMatrix :: "matrix \<Rightarrow> (jsval \<Rightarrow> nat \<Rightarrow> nat \<Rightarrow> jsval) \<Rightarrow> matrix" where
  "mapMatrix m fn =
     (let newMatrix = copyMatrix m
      in fold (\<lambda>x acc.
           fold (\<lambda>y acc. setXY acc (int x) (int y) (fn (getXY m (int x) (int y)) x y))
             [0..<height newMatrix] acc)
           [0..<width newMatrix] newMatrix)"

definition normalizeMatrix :: "matrix \<Rightarrow> error + matrix" where
  "normalizeMatrix m =
     (case maxValueOf m of
        Inl e \<Rightarrow> Inl e
      | Inr mx \<Rightarrow> Inr (mapMatrix m (\<lambda>x _ _. js_div x mx)))"

text \<open>
  \<open>blitMatrix\<close> and \<open>addMatrix\<close>: a cell is skipped (\<open>continue\<close>) when its column or
  its row reaches the destination's width or height; nothing is tested from below.
\<close>

definition blitMatrix :: "matrix \<Rightarrow> matrix \<Rightarrow> int \<Rightarrow> int \<Rightarrow> matrix" where
  "blitMatrix matrixSrc matrixDst offsetX offsetY =
     fold (\<lambda>x dst.
       fold (\<lambda>y dst.
         if int x + offsetX \<ge> int (width dst) then dst
         else if int y + offsetY \<ge> int (height dst) then dst
         else setXY dst (int x + offsetX) (int y + offsetY) (getXY matrixSrc (int x) (int y)))
         [0..<height matrixSrc] dst)
       [0..<width matrixSrc] matrixDst"

definition addMatrix :: "matrix \<Rightarrow> matrix \<Rightarrow> int \<Rightarrow> int \<Rightarrow> matrix" where
  "addMatrix matrixSrc matrixDst offsetX offsetY =
     fold (\<lambda>x dst.
       fold (\<lambda>y dst.
         if int x + offsetX \<ge> int (width dst) then dst
         else if int y + offsetY \<ge> int (height dst) then dst
         else let oldValue = getXY dst (int x + offsetX) (int y + offsetY);
                  newValue = getXY matrixSrc (int x) (int y)
              in setXY dst (int x + offsetX) (int y + offsetY) (js_add oldValue newValue))
         [0..<height matrixSrc] dst)
       [0..<width matrixSrc] matrixDst"

section \<open>The kernel and the animation step\<close>

text \<open>The callback of the inner \<open>mapMatrix\<close> of \<open>blob\<close>.\<close>

definition blobProfile :: "jsval \<Rightarrow> nat \<Rightarrow> nat \<Rightarrow> jsval" where
  "blobProfile v x y =
     (let cap = js_sqrt (js_add (js_pow (Num 8) (Num 2)) (js_pow (Num 8) (Num 2)));
          xOff = js_sub (Num (real x)) (Num 8);
          yOff = js_sub (Num (real y)) (Num 8)
      in js_pow (js_sub (Num 1)
                   (js_mul (js_div (js_sqrt (js_add (js_pow xOff (Num 2)) (js_pow yOff (Num 2))))
                                   cap)
                           (Num (11 / 10))))
                (Num 2))"

definition blobRaw :: matrix where
  "blobRaw = mapMatrix (makeMatrix 17 17 (Num 0)) blobProfile"

definition blob :: "error + matrix" where
  "blob =
     (case normalizeMatrix blobRaw of
        Inl e \<Rightarrow> Inl e
      | Inr n \<Rightarrow> Inr (mapMatrix n (\<lambda>x _ _. js_mul x (Num (1 / 10)))))"

text \<open>
  The globals of the script: the kernel, the persistent matrix and the generator.
  \<open>nextBlob\<close> draws twice from the generator (\<open>random\<close> is \<open>rng.next()\<close>) and stamps
  the kernel at \<open>(x - 16, y - 8)\<close>.
\<close>

record globals =
  g_blob :: matrix
  g_matrix :: matrix
  g_rng :: generator

definition nextBlob :: "globals \<Rightarrow> globals" where
  "nextBlob g =
     (let (r1, rng1) = WichmannHillGenerator_next (g_rng g);
          x = toInt32 (js_mul r1 (Num (real (width (g_matrix g)))));
          (r2, rng2) = WichmannHillGenerator_next rng1;
          y = toInt32 (js_mul r2 (Num (real (height (g_matrix g)))))
      in g\<lparr>g_matrix := addMatrix (g_blob g) (g_matrix g) (x - 16) (y - 8), g_rng := rng2\<rparr>)"

text \<open>
  One frame of \<open>animate\<close>. The three inputs read from the page are parameters; the
  velocity is an integer, and the loop \<open>for (i = 0; i < velocity; i++)\<close> runs
  \<open>nat velocity\<close> times (not at all for a negative velocity). The matrix handed to
  \<open>drawMatrix\<close> is returned together with the updated globals; an exception of
  \<open>normalizeMatrix\<close> ends the frame.
\<close>

definition animate :: "jsval \<Rightarrow> int \<Rightarrow> jsval \<Rightarrow> globals \<Rightarrow> error + (matrix \<times> globals)" where
  "animate contrast velocity attenuationInput g =
     (let attenuation = js_sub (Num 1) (js_pow (js_sub (Num 1) attenuationInput) (Num 8));
          g1 = (nextBlob ^^ nat velocity) g
      in case normalizeMatrix (g_matrix g1) of
           Inl e \<Rightarrow> Inl e
         | Inr n \<Rightarrow>
             Inr (mapMatrix n (\<lambda>v _ _. js_pow v contrast),
                  g1\<lparr>g_matrix := mapMatrix (g_matrix g1) (\<lambda>v _ _. js_mul v attenuation)\<rparr>))"

text \<open>The click handler of the button: \<open>matrix = normalizeMatrix(matrix)\<close>.\<close>

definition renormalize :: "globals \<Rightarrow> error + globals" where
  "renormalize g =
     (case normalizeMatrix (g_matrix g) of
        Inl e \<Rightarrow> Inl e
      | Inr n \<Rightarrow> Inr (g\<lparr>g_matrix := n\<rparr>))"

text \<open>An array literal with its \<open>width\<close> and \<open>height\<close> set, for concrete inputs.\<close>

definition matrixOf :: "nat \<Rightarrow> nat \<Rightarrow> jsval list \<Rightarrow> matrix" where
  "matrixOf w h vs =
     \<lparr>props = (\<lambda>k. if 0 \<le> k \<and> k < int (length vs) then Some (vs ! nat k) else None),
      alength = length vs, width = w, height = h\<rparr>"

section \<open>Notions used in the statements and proofs\<close>

text \<open>The seed components the specification admits: the integers from 1 to 30000.\<close>

definition seedValues :: "jsval set" where
  "seedValues = (\<lambda>i. Num (real_of_int i)) ` {1..30000}"

text \<open>The coordinates \<open>0 \<le> x < width\<close>, \<open>0 \<le> y < height\<close> of a matrix.\<close>

definition inRange :: "matrix \<Rightarrow> int \<times> int \<Rightarrow> bool" where
  "inRange m p = (0 \<le> fst p \<and> fst p < int (width m) \<and> 0 \<le> snd p \<and> snd p < int (height m))"

definition flatIndex :: "matrix \<Rightarrow> int \<times> int \<Rightarrow> int" where
  "flatIndex m p = indexXY m (fst p) (snd p)"

text \<open>
  A grid is a matrix as \<open>makeMatrix\<close> creates it: \<open>width * height\<close> elements and no
  hole among them.
\<close>

definition grid :: "matrix \<Rightarrow> bool" where
  "grid m = (alength m = width m * height m \<and> {0..<int (alength m)} \<subseteq> dom (props m))"

text \<open>A sequence of writes \<open>array[k] = v\<close>, and the writes the loops of \<open>mapMatrix\<close> make.\<close>

definition writeAll :: "(int \<times> jsval) list \<Rightarrow> matrix \<Rightarrow> matrix" where
  "writeAll ws a = fold (\<lambda>(k, v) a. writeAt a k v) ws a"

definition mapWrites :: "matrix \<Rightarrow> (jsval \<Rightarrow> nat \<Rightarrow> nat \<Rightarrow> jsval) \<Rightarrow> (int \<times> jsval) list" where
  "mapWrites m fn =
     concat (map (\<lambda>x. map (\<lambda>y. (indexXY m (int x) (int y), fn (getXY m (int x) (int y)) x y))
                          [0..<height m])
                 [0..<width m])"

text \<open>
  The cells \<open>addMatrix\<close> accumulates into: for every source cell that passes the two
  tests of the loop body, in the order of the loops, the flat index written in the
  destination and the source value added there.
\<close>

definition stampCells :: "matrix \<Rightarrow> matrix \<Rightarrow> int \<Rightarrow> int \<Rightarrow> (int \<times> jsval) list" where
  "stampCells src dst offsetX offsetY =
     concat (map (\<lambda>x. concat (map (\<lambda>y.
         if int x + offsetX \<ge> int (width dst) then []
         else if int y + offsetY \<ge> int (height dst) then []
         else [(indexXY dst (int x + offsetX) (int y + offsetY), getXY src (int x) (int y))])
       [0..<height src])) [0..<width src])"

definition writtenCells :: "matrix \<Rightarrow> matrix \<Rightarrow> int \<Rightarrow> int \<Rightarrow> int set" where
  "writtenCells src dst offsetX offsetY = fst ` set (stampCells src dst offsetX offsetY)"

definition addAt :: "int \<Rightarrow> jsval \<Rightarrow> matrix \<Rightarrow> matrix" where
  "addAt k v d = writeAt d k (js_add (readAt d k) v)"

definition addAll :: "(int \<times> jsval) list \<Rightarrow> matrix \<Rightarrow> matrix" where
  "addAll ws d = fold (\<lambda>(k, v) d. addAt k v d) ws d"

text \<open>
  The number the callback of \<open>blob\<close> computes at \<open>(x, y)\<close>, read off the source:
  \<open>(1 - Math.sqrt(xOff ** 2 + yOff ** 2) / cap * 1.1) ** 2\<close>, where \<open>/\<close> and \<open>*\<close>
  associate to the left.
\<close>

definition blobValue :: "nat \<Rightarrow> nat \<Rightarrow> real" where
  "blobValue x y =
     (1 - sqrt ((real x - 8)\<^sup>2 + (real y - 8)\<^sup>2) / sqrt (8\<^sup>2 + 8\<^sup>2) * (11 / 10))\<^sup>2"

section \<open>The generator: one draw\<close>

lemma js_trunc_nonneg: "0 \<le> t \<Longrightarrow> js_trunc t = \<lfloor>t\<rfloor>"
  by (simp add: js_trunc_def)

lemma js_rem_int:
  assumes "0 \<le> i" "0 < n"
  shows "js_rem (Num (of_int i)) (Num (of_int n)) = Num (of_int (i mod n))"
proof -
  have t: "js_trunc (real_of_int i / real_of_int n) = i div n"
    using assms by (simp add: js_trunc_nonneg floor_divide_of_int_eq)
  have "real_of_int i - real_of_int n * real_of_int (i div n) = real_of_int (i mod n)"
    by (simp add: minus_mult_div_eq_mod flip: of_int_mult of_int_diff)
  with t assms show ?thesis by simp
qed

lemma js_rem_one: "0 \<le> r \<Longrightarrow> js_rem (Num r) (Num 1) = Num (frac r)"
  by (simp add: js_trunc_nonneg frac_def)

text \<open>
  Claim C1. From a state whose three components are integers in [1, 30000], one draw
  replaces the state by (171 s1) mod 30269, (172 s2) mod 30307, (170 s3) mod 30323 and
  returns the fractional part of s1/30269 + s2/30307 + s3/30323 of the new state, a value
  in [0, 1).
\<close>

theorem next_draw:
  assumes "1 \<le> a" "a \<le> 30000" "1 \<le> b" "b \<le> 30000" "1 \<le> c" "c \<le> 30000"
  defines "a' \<equiv> (171 * a) mod 30269"
      and "b' \<equiv> (172 * b) mod 30307"
      and "c' \<equiv> (170 * c) mod 30323"
  defines "r \<equiv> real_of_int a' / 30269 + real_of_int b' / 30307 + real_of_int c' / 30323"
  shows "WichmannHillGenerator_next
           \<lparr>s1 = Num (of_int a), s2 = Num (of_int b), s3 = Num (of_int c)\<rparr>
         = (Num (frac r),
            \<lparr>s1 = Num (of_int a'), s2 = Num (of_int b'), s3 = Num (of_int c')\<rparr>)
         \<and> 0 \<le> frac r \<and> frac r < 1"
proof -
  have ra: "js_rem (js_mul (Num 171) (Num (of_int a))) (Num 30269) = Num (of_int a')"
    using assms(1) js_rem_int [of "171 * a" 30269] by (simp add: a'_def)
  have rb: "js_rem (js_mul (Num 172) (Num (of_int b))) (Num 30307) = Num (of_int b')"
    using assms(3) js_rem_int [of "172 * b" 30307] by (simp add: b'_def)
  have rc: "js_rem (js_mul (Num 170) (Num (of_int c))) (Num 30323) = Num (of_int c')"
    using assms(5) js_rem_int [of "170 * c" 30323] by (simp add: c'_def)
  have "0 \<le> a'" "0 \<le> b'" "0 \<le> c'"
    by (simp_all add: a'_def b'_def c'_def)
  then have "0 \<le> r"
    by (simp add: r_def)
  then have rr: "js_rem (Num r) (Num 1) = Num (frac r)"
    by (rule js_rem_one)
  have "WichmannHillGenerator_next
          \<lparr>s1 = Num (of_int a), s2 = Num (of_int b), s3 = Num (of_int c)\<rparr>
        = (js_rem (js_add (js_add (js_div (Num (of_int a')) (Num 30269))
                                  (js_div (Num (of_int b')) (Num 30307)))
                          (js_div (Num (of_int c')) (Num 30323)))
                  (Num 1),
           \<lparr>s1 = Num (of_int a'), s2 = Num (of_int b'), s3 = Num (of_int c')\<rparr>)"
    by (simp only: WichmannHillGenerator_next_def Let_def generator.simps ra rb rc)
  also have "js_add (js_add (js_div (Num (of_int a')) (Num 30269))
                            (js_div (Num (of_int b')) (Num 30307)))
                    (js_div (Num (of_int c')) (Num 30323)) = Num r"
    by (simp add: r_def)
  finally show ?thesis
    by (simp only: rr) (simp add: frac_lt_1)
qed

theorem next_draw_witness:
  "\<exists>r. WichmannHillGenerator_next \<lparr>s1 = Num 100, s2 = Num 100, s3 = Num 100\<rparr>
        = (Num r, \<lparr>s1 = Num 17100, s2 = Num 17200, s3 = Num 17000\<rparr>)
       \<and> 0 \<le> r \<and> r < 1"
  using next_draw [of 100 100 100] by simp

section \<open>The generator: construction from a seed\<close>

lemma validate_Num:
  "validateWichmannHillStateInteger (Num a) =
     (if of_int \<lfloor>a\<rfloor> = a \<and> 1 \<le> a \<and> a \<le> 30000 then Inr (Num a)
      else Inl AssertionFailed)"
  by (simp add: validateWichmannHillStateInteger_def js_le_def del: of_int_floor_cancel)

lemma seedValues_Num:
  "Num a \<in> seedValues \<longleftrightarrow> of_int \<lfloor>a\<rfloor> = a \<and> 1 \<le> a \<and> a \<le> 30000"
proof
  assume "Num a \<in> seedValues"
  then obtain i :: int where "a = of_int i" "1 \<le> i" "i \<le> 30000"
    by (auto simp: seedValues_def)
  then show "of_int \<lfloor>a\<rfloor> = a \<and> 1 \<le> a \<and> a \<le> 30000"
    by simp
next
  assume h: "of_int \<lfloor>a\<rfloor> = a \<and> 1 \<le> a \<and> a \<le> 30000"
  have "1 \<le> \<lfloor>a\<rfloor>" "\<lfloor>a\<rfloor> \<le> 30000"
    using h by (simp_all only: le_floor_iff floor_le_iff) simp_all
  moreover have "Num a = Num (of_int \<lfloor>a\<rfloor>)"
    using h by (simp only: )
  ultimately show "Num a \<in> seedValues"
    unfolding seedValues_def by (intro image_eqI [of _ _ "\<lfloor>a\<rfloor>"]) simp_all
qed

lemma validate_iff:
  "validateWichmannHillStateInteger v =
     (if v \<in> seedValues then Inr v else Inl AssertionFailed)"
proof (cases v)
  case (Num a)
  then show ?thesis
    by (simp only: validate_Num seedValues_Num)
qed (simp_all add: validateWichmannHillStateInteger_def seedValues_def image_iff)

text \<open>
  Claim C6. Construction from a seed of three components fails exactly when some
  component is not an integer of [1, 30000]; otherwise it succeeds, and the state of the
  generator is the seed.
\<close>

theorem with_seed:
  "WichmannHillGenerator_with [x, y, z] =
     (if set [x, y, z] \<subseteq> seedValues then Inr \<lparr>s1 = x, s2 = y, s3 = z\<rparr>
      else Inl AssertionFailed)"
  by (simp add: WichmannHillGenerator_with_def WichmannHillGenerator_def elemAt_def validate_iff)

theorem with_seed_witness:
  "WichmannHillGenerator_with [Num 100, Num 100, Num 100]
     = Inr \<lparr>s1 = Num 100, s2 = Num 100, s3 = Num 100\<rparr>
   \<and> WichmannHillGenerator_with [Num 1, Num (1 / 2), Num 3] = Inl AssertionFailed
   \<and> WichmannHillGenerator_with [Num 1, Num 30001, Num 3] = Inl AssertionFailed
   \<and> WichmannHillGenerator_with [Num 0, Num 2, Num 3] = Inl AssertionFailed
   \<and> WichmannHillGenerator_with [Num 1, Num 2, NaN] = Inl AssertionFailed"
proof -
  have ok: "Num 100 \<in> seedValues"
    unfolding seedValues_def by (rule image_eqI [of _ _ 100]) simp_all
  have half: "Num (1 / 2) \<notin> seedValues"
  proof
    assume "Num (1 / 2) \<in> seedValues"
    then obtain i :: int where "(1::real) / 2 = of_int i" by (auto simp: seedValues_def)
    then have "real_of_int (2 * i) = 1" by simp
    then have "2 * i = 1" by (simp only: of_int_eq_1_iff)
    then show False by presburger
  qed
  have big: "Num 30001 \<notin> seedValues"
    by (auto simp: seedValues_def)
  have zero: "Num 0 \<notin> seedValues"
    by (auto simp: seedValues_def)
  have nan: "NaN \<notin> seedValues"
    by (auto simp: seedValues_def)
  show ?thesis
    using with_seed [of "Num 100" "Num 100" "Num 100"]
      with_seed [of "Num 1" "Num (1 / 2)" "Num 3"]
      with_seed [of "Num 1" "Num 30001" "Num 3"]
      with_seed [of "Num 0" "Num 2" "Num 3"]
      with_seed [of "Num 1" "Num 2" NaN]
      ok half big zero nan
    by simp
qed

section \<open>Evaluation of concrete matrices\<close>

lemmas matrix_eval = mapMatrix_def makeMatrix_def copyMatrix_def setXY_def getXY_def
  indexXY_def readAt_def writeAt_def Let_def upt_conv_Cons addMatrix_def matrixOf_def
  elements_def maxValueOf_def normalizeMatrix_def List.map_filter_def larger_def

section \<open>The flat index\<close>

lemma writeAt_fields [simp]:
  "width (writeAt m k v) = width m" "height (writeAt m k v) = height m"
  "props (writeAt m k v) = (props m)(k \<mapsto> v)"
  by (simp_all add: writeAt_def)

lemma setXY_fields [simp]:
  "width (setXY m x y v) = width m" "height (setXY m x y v) = height m"
  by (simp_all add: setXY_def)

lemma getXY_setXY_alias:
  "indexXY m x y = indexXY m x' y' \<Longrightarrow> getXY (setXY m x y v) x' y' = v"
  by (simp add: getXY_def setXY_def readAt_def indexXY_def)

lemma int_div_less: "0 < n \<Longrightarrow> k < n * m \<Longrightarrow> k div n < (m::int)"
proof -
  assume n: "0 < n" and k: "k < n * m"
  have "n * (k div n) + k mod n = k" by simp
  moreover have "0 \<le> k mod n" using n by simp
  ultimately have "n * (k div n) \<le> k" by linarith
  with k have "n * (k div n) < n * m" by linarith
  with n show ?thesis by (simp only: mult_less_cancel_left_pos)
qed

lemma flatIndex_square_bij:
  assumes "width m = height m"
  shows "bij_betw (flatIndex m) {p. inRange m p} {0..<int (width m * height m)}"
proof -
  define n where "n = int (height m)"
  have w: "int (width m) = n" using assms by (simp add: n_def)
  have fi: "flatIndex m p = snd p * n + fst p" for p
    by (simp add: flatIndex_def indexXY_def n_def)
  show ?thesis
    unfolding bij_betw_def
  proof
    show "inj_on (flatIndex m) {p. inRange m p}"
    proof (rule inj_onI)
      fix p q
      assume "p \<in> {p. inRange m p}" "q \<in> {p. inRange m p}" "flatIndex m p = flatIndex m q"
      then have r: "0 \<le> fst p" "fst p < n" "0 \<le> fst q" "fst q < n"
        and e: "snd p * n + fst p = snd q * n + fst q"
        by (simp_all add: inRange_def w fi)
      have "(snd p * n + fst p) mod n = fst p" "(snd q * n + fst q) mod n = fst q"
        using r by simp_all
      with e have f: "fst p = fst q" by simp
      have "0 < n" using r by linarith
      have "(snd p * n + fst p) div n = snd p" "(snd q * n + fst q) div n = snd q"
        using r by simp_all
      with e have "snd p = snd q" by simp
      with f show "p = q" by (simp add: prod_eq_iff)
    qed
  next
    show "flatIndex m ` {p. inRange m p} = {0..<int (width m * height m)}"
    proof (intro equalityI subsetI)
      fix k assume "k \<in> flatIndex m ` {p. inRange m p}"
      then obtain p where p: "inRange m p" and k: "k = snd p * n + fst p"
        by (auto simp: fi)
      from p have r: "0 \<le> fst p" "fst p < n" "0 \<le> snd p" "snd p < n"
        by (simp_all add: inRange_def w n_def)
      then have "snd p + 1 \<le> n" by simp
      then have "(snd p + 1) * n \<le> n * n"
        using r by (intro mult_right_mono) linarith+
      then have "k < n * n" using r k by (simp add: algebra_simps)
      moreover have "0 \<le> k" using r k by simp
      ultimately show "k \<in> {0..<int (width m * height m)}"
        using w by (simp add: n_def)
    next
      fix k assume "k \<in> {0..<int (width m * height m)}"
      then have k: "0 \<le> k" "k < n * n" using w by (simp_all add: n_def)
      then have n: "0 < n" by (smt (verit) mult_nonneg_nonpos n_def of_nat_0_le_iff)
      have "k div n < n"
        using n k(2) by (rule int_div_less)
      then have "inRange m (k mod n, k div n)"
        using k n by (simp add: inRange_def w n_def [symmetric] pos_imp_zdiv_nonneg_iff)
      moreover have "flatIndex m (k mod n, k div n) = k"
        by (simp add: fi)
      ultimately show "k \<in> flatIndex m ` {p. inRange m p}"
        by (metis (mono_tags, lifting) image_eqI mem_Collect_eq)
    qed
  qed
qed

text \<open>
  Claim C10, as amended. In a matrix that is wider than high and has at least two rows,
  the coordinates \<open>(height, 0)\<close> and \<open>(0, 1)\<close> are both in range, differ, and have the
  same flat index, so a value set at the first is the value read at the second. In a
  square matrix the flat index is a bijection from the coordinates in range onto
  \<open>[0, width * height)\<close>.
\<close>

theorem flatIndex_alias:
  "(2 \<le> height m \<and> height m < width m \<longrightarrow>
      inRange m (int (height m), 0) \<and> inRange m (0, 1)
      \<and> flatIndex m (int (height m), 0) = flatIndex m (0, 1)
      \<and> (\<forall>v. getXY (setXY m (int (height m)) 0 v) 0 1 = v))
   \<and> (width m = height m \<longrightarrow>
      bij_betw (flatIndex m) {p. inRange m p} {0..<int (width m * height m)})"
proof (intro conjI impI)
  assume h: "2 \<le> height m \<and> height m < width m"
  then show "inRange m (int (height m), 0)" "inRange m (0, 1)"
    by (simp_all add: inRange_def)
  show "flatIndex m (int (height m), 0) = flatIndex m (0, 1)"
    by (simp add: flatIndex_def indexXY_def)
  show "\<forall>v. getXY (setXY m (int (height m)) 0 v) 0 1 = v"
    by (simp add: getXY_setXY_alias indexXY_def)
next
  assume "width m = height m"
  then show "bij_betw (flatIndex m) {p. inRange m p} {0..<int (width m * height m)}"
    by (rule flatIndex_square_bij)
qed

theorem flatIndex_alias_witness:
  "flatIndex (makeMatrix 3 2 (Num 0)) (2, 0) = flatIndex (makeMatrix 3 2 (Num 0)) (0, 1)
   \<and> getXY (setXY (makeMatrix 3 2 (Num 0)) 2 0 (Num 7)) 0 1 = Num 7
   \<and> bij_betw (flatIndex (makeMatrix 2 2 (Num 0))) {p. inRange (makeMatrix 2 2 (Num 0)) p}
        {0..<4}"
  using flatIndex_alias [of "makeMatrix 3 2 (Num 0)"] flatIndex_alias [of "makeMatrix 2 2 (Num 0)"]
  by (simp add: makeMatrix_def)

text \<open>
  The claim as stated fails for a matrix of width 2 and height 1: the only row has the
  flat indices 0 and 1, so the flat index is injective on the coordinates in range.
\<close>

theorem flatIndex_wide_counterexample:
  "height (makeMatrix 2 1 (Num 0)) < width (makeMatrix 2 1 (Num 0))
   \<and> inj_on (flatIndex (makeMatrix 2 1 (Num 0))) {p. inRange (makeMatrix 2 1 (Num 0)) p}"
  by (auto simp: inj_on_def inRange_def flatIndex_def indexXY_def makeMatrix_def prod_eq_iff)

section \<open>Matrices that are higher than wide\<close>

text \<open>
  Claim C4 at a matrix of width 1 and height 2. \<open>makeMatrix\<close> gives it the length
  \<open>1 * 2\<close>; \<open>mapMatrix\<close> with the identity callback visits \<open>(0, 1)\<close> at the flat index
  \<open>1 * 2 + 0 = 2\<close>, beyond the end, and the write extends the copy to length 3.
\<close>

theorem mapMatrix_tall_length:
  "alength (makeMatrix 1 2 (Num 0)) = 2
   \<and> width (mapMatrix (makeMatrix 1 2 (Num 0)) (\<lambda>v x y. v)) = 1
   \<and> height (mapMatrix (makeMatrix 1 2 (Num 0)) (\<lambda>v x y. v)) = 2
   \<and> alength (mapMatrix (makeMatrix 1 2 (Num 0)) (\<lambda>v x y. v)) = 3
   \<and> elements (mapMatrix (makeMatrix 1 2 (Num 0)) (\<lambda>v x y. v)) = [Num 0, Num 0, Undefined]"
  by (simp add: matrix_eval)

text \<open>
  Claim C3 at a destination of width 1 and height 2 and a source of one cell, stamped at
  the offset \<open>(0, 1)\<close>. The cell \<open>(0, 1)\<close> passes both tests; its flat index is 2, beyond
  the two cells of the destination, so \<open>undefined + 5 = NaN\<close> is written there and the
  destination has length 3. The second cell of the destination keeps its value 0.
\<close>

theorem addMatrix_tall_write:
  "alength (makeMatrix 1 2 (Num 0)) = 2
   \<and> alength (addMatrix (makeMatrix 1 1 (Num 5)) (makeMatrix 1 2 (Num 0)) 0 1) = 3
   \<and> elements (addMatrix (makeMatrix 1 1 (Num 5)) (makeMatrix 1 2 (Num 0)) 0 1)
       = [Num 0, Num 0, NaN]"
  by (simp add: matrix_eval)

text \<open>
  Claim C5 at a persistent matrix of width 1 and height 2, all zero, with no stamp, the
  contrast 1 and the attenuation input 1/2: the matrix handed to \<open>drawMatrix\<close> is
  \<open>[NaN, 0, NaN]\<close> and the persistent matrix becomes \<open>[0, 0, NaN]\<close>.
\<close>

theorem animate_tall_zero:
  "map_sum id (\<lambda>(out, g). (elements out, elements (g_matrix g)))
     (animate (Num 1) 0 (Num (1 / 2))
        \<lparr>g_blob = b, g_matrix = makeMatrix 1 2 (Num 0), g_rng = r\<rparr>)
   = Inr ([NaN, Num 0, NaN], [Num 0, Num 0, NaN])"
  by (simp add: animate_def js_sub_def matrix_eval)



section \<open>Normalization: where the claims fail\<close>

text \<open>
  Claim C7 fails at a matrix whose maximum is negative: the 2 x 2 matrix
  \<open>[-1, -2, -4, -4]\<close> has the maximum \<open>-1\<close>; normalized it is \<open>[1, 2, 4, 4]\<close>, and
  normalized again \<open>[1/4, 1/2, 1, 1]\<close>.
\<close>

theorem normalize_twice_counterexample:
  "maxValueOf (matrixOf 2 2 [Num (- 1), Num (- 2), Num (- 4), Num (- 4)]) = Inr (Num (- 1))
   \<and> map_sum id elements
        (normalizeMatrix (matrixOf 2 2 [Num (- 1), Num (- 2), Num (- 4), Num (- 4)]))
       = Inr [Num 1, Num 2, Num 4, Num 4]
   \<and> (case normalizeMatrix (matrixOf 2 2 [Num (- 1), Num (- 2), Num (- 4), Num (- 4)]) of
         Inl e \<Rightarrow> Inl e
       | Inr n \<Rightarrow> map_sum id elements (normalizeMatrix n))
       = Inr [Num (1 / 4), Num (1 / 2), Num 1, Num 1]"
  by (simp add: matrix_eval)

text \<open>
  Claim C8 fails at a matrix with a cell that is not a finite number: in the 2 x 2 matrix
  \<open>[1, 0, 0, NaN]\<close> the cell 1 is positive, \<open>x > NaN\<close> is false for every \<open>x\<close>, so the
  reduction ends with \<open>NaN\<close>; every cell of the normalized matrix is \<open>NaN\<close>, and so is
  its maximum.
\<close>

theorem normalize_max_counterexample:
  "maxValueOf (matrixOf 2 2 [Num 1, Num 0, Num 0, NaN]) = Inr NaN
   \<and> map_sum id elements (normalizeMatrix (matrixOf 2 2 [Num 1, Num 0, Num 0, NaN]))
       = Inr [NaN, NaN, NaN, NaN]
   \<and> (case normalizeMatrix (matrixOf 2 2 [Num 1, Num 0, Num 0, NaN]) of
         Inl e \<Rightarrow> Inl e
       | Inr n \<Rightarrow> maxValueOf n) = Inr NaN"
  by (simp add: matrix_eval)

section \<open>The loops of mapMatrix as a sequence of writes\<close>

lemma writeAll_simps [simp]:
  "writeAll [] a = a"
  "writeAll ((k, v) # ws) a = writeAll ws (writeAt a k v)"
  "writeAll (ws @ ws') a = writeAll ws' (writeAll ws a)"
  by (simp_all add: writeAll_def)

lemma writeAll_fields [simp]:
  "width (writeAll ws a) = width a" "height (writeAll ws a) = height a"
  by (induction ws arbitrary: a) auto

lemma copyMatrix_fields [simp]:
  "width (copyMatrix m) = width m" "height (copyMatrix m) = height m"
  "alength (copyMatrix m) = alength m"
  by (simp_all add: copyMatrix_def)

lemma mapMatrix_inner:
  "height acc = height m \<Longrightarrow>
   fold (\<lambda>y acc. setXY acc x (int y) (g y)) ys acc
   = writeAll (map (\<lambda>y. (indexXY m x (int y), g y)) ys) acc"
  by (induction ys arbitrary: acc) (simp_all add: setXY_def indexXY_def)

lemma mapMatrix_outer:
  "height acc = height m \<Longrightarrow>
   fold (\<lambda>x acc. fold (\<lambda>y acc. setXY acc (int x) (int y) (g x y)) ys acc) xs acc
   = writeAll (concat (map (\<lambda>x. map (\<lambda>y. (indexXY m (int x) (int y), g x y)) ys) xs)) acc"
  by (induction xs arbitrary: acc) (simp_all add: mapMatrix_inner)

lemma mapMatrix_writeAll: "mapMatrix m fn = writeAll (mapWrites m fn) (copyMatrix m)"
  by (simp add: mapMatrix_def mapWrites_def mapMatrix_outer [of _ m])

lemma mapMatrix_fields [simp]:
  "width (mapMatrix m fn) = width m" "height (mapMatrix m fn) = height m"
  by (simp_all add: mapMatrix_writeAll)

lemma props_writeAll_other:
  "k \<notin> fst ` set ws \<Longrightarrow> props (writeAll ws a) k = props a k"
  by (induction ws arbitrary: a) auto

lemma props_writeAll_det:
  "(k, v) \<in> set ws \<Longrightarrow> (\<And>v'. (k, v') \<in> set ws \<Longrightarrow> v' = v) \<Longrightarrow>
   props (writeAll ws a) k = Some v"
proof (induction ws arbitrary: a)
  case Nil
  then show ?case by simp
next
  case (Cons kv ws)
  obtain k0 v0 where kv: "kv = (k0, v0)" by (cases kv)
  show ?case
  proof (cases "(k, v) \<in> set ws")
    case True
    then have "props (writeAll ws (writeAt a k0 v0)) k = Some v"
      using Cons.prems(2) by (intro Cons.IH) auto
    then show ?thesis by (simp add: kv)
  next
    case False
    with Cons.prems(1) have e: "k0 = k" "v0 = v" by (auto simp: kv)
    have "k \<notin> fst ` set ws"
    proof
      assume "k \<in> fst ` set ws"
      then obtain v' where "(k, v') \<in> set ws" by auto
      with Cons.prems(2) [of v'] False show False by auto
    qed
    then show ?thesis by (simp add: kv e props_writeAll_other)
  qed
qed

lemma alength_writeAll:
  "(\<And>k. k \<in> fst ` set ws \<Longrightarrow> k < int (alength a)) \<Longrightarrow> alength (writeAll ws a) = alength a"
proof (induction ws arbitrary: a)
  case Nil
  then show ?case by simp
next
  case (Cons kv ws)
  obtain k0 v0 where kv: "kv = (k0, v0)" by (cases kv)
  have "k0 < int (alength a)" using Cons.prems [of k0] by (simp add: kv)
  then have l: "alength (writeAt a k0 v0) = alength a"
    by (auto simp: writeAt_def)
  have "alength (writeAll ws (writeAt a k0 v0)) = alength (writeAt a k0 v0)"
    using Cons.prems by (intro Cons.IH) (auto simp: l)
  then show ?case by (simp add: kv l)
qed

section \<open>mapMatrix on square grids\<close>

lemma mapWrites_set:
  "set (mapWrites m fn) =
     {(indexXY m (int x) (int y), fn (getXY m (int x) (int y)) x y) | x y.
        x < width m \<and> y < height m}"
  by (fastforce simp: mapWrites_def)

lemma square_index_split:
  assumes "x < n" "k = int y * int n + int x"
  shows "nat (k mod int n) = x" "nat (k div int n) = y"
  using assms by simp_all

lemma mapMatrix_square:
  assumes sq: "width m = height m" and len: "alength m = width m * height m"
  shows "props (mapMatrix m fn) k =
           (if 0 \<le> k \<and> k < int (alength m)
            then Some (fn (readAt m k) (nat (k mod int (height m))) (nat (k div int (height m))))
            else None)"
    and "alength (mapMatrix m fn) = alength m"
proof -
  define n where "n = height m"
  have w: "width m = n" using sq by (simp add: n_def)
  have len': "int (alength m) = int n * int n" using len w by (simp add: n_def)
  have keys: "0 \<le> k' \<and> k' < int (alength m)" if "k' \<in> fst ` set (mapWrites m fn)" for k'
  proof -
    from that obtain x y where xy: "x < n" "y < n" and k': "k' = int y * int n + int x"
      by (auto simp: mapWrites_set indexXY_def w n_def)
    have "int y + 1 \<le> int n" using xy by simp
    then have "(int y + 1) * int n \<le> int n * int n"
      by (intro mult_right_mono) simp_all
    then show ?thesis using xy k' len' by (simp add: algebra_simps)
  qed
  show "alength (mapMatrix m fn) = alength m"
    using keys by (simp add: mapMatrix_writeAll alength_writeAll)
  show "props (mapMatrix m fn) k =
           (if 0 \<le> k \<and> k < int (alength m)
            then Some (fn (readAt m k) (nat (k mod int (height m))) (nat (k div int (height m))))
            else None)"
  proof (cases "0 \<le> k \<and> k < int (alength m)")
    case False
    then have "k \<notin> fst ` set (mapWrites m fn)" using keys by blast
    then have "props (mapMatrix m fn) k = props (copyMatrix m) k"
      by (simp add: mapMatrix_writeAll props_writeAll_other)
    with False show ?thesis by (auto simp: copyMatrix_def)
  next
    case True
    then have k: "0 \<le> k" "k < int n * int n" using len' by simp_all
    have n: "0 < int n" using k by (cases "n = 0") simp_all
    define x y where "x = nat (k mod int n)" and "y = nat (k div int n)"
    have "k div int n < int n" using n k(2) by (rule int_div_less)
    then have xy: "x < n" "y < n"
      using n k by (simp_all add: x_def y_def nat_less_iff pos_imp_zdiv_nonneg_iff)
    have kxy: "k = int y * int n + int x"
      using n k by (simp add: x_def y_def pos_imp_zdiv_nonneg_iff)
    have rd: "getXY m (int x) (int y) = readAt m k"
      by (simp add: getXY_def indexXY_def kxy n_def)
    have "(k, fn (readAt m k) x y)
          = (indexXY m (int x) (int y), fn (getXY m (int x) (int y)) x y)"
      using kxy rd by (simp add: indexXY_def n_def)
    moreover have "x < width m \<and> y < height m"
      using xy by (simp add: w n_def [symmetric])
    ultimately have mem: "(k, fn (readAt m k) x y) \<in> set (mapWrites m fn)"
      unfolding mapWrites_set by blast
    have det: "v' = fn (readAt m k) x y" if "(k, v') \<in> set (mapWrites m fn)" for v'
    proof -
      from that obtain x' y' where xy': "x' < n" "y' < n"
        and k': "k = int y' * int n + int x'"
        and v': "v' = fn (getXY m (int x') (int y')) x' y'"
        by (auto simp: mapWrites_set indexXY_def w n_def)
      have "x' = x" "y' = y"
        using square_index_split [OF xy'(1) k'] by (simp_all add: x_def y_def)
      with v' rd show ?thesis by simp
    qed
    have "props (mapMatrix m fn) k = Some (fn (readAt m k) x y)"
      unfolding mapMatrix_writeAll using mem det by (rule props_writeAll_det)
    with True show ?thesis by (simp add: x_def y_def n_def)
  qed
qed

lemma grid_elements:
  assumes "grid m"
  shows "elements m = map (\<lambda>i. readAt m (int i)) [0..<alength m]"
proof -
  have ex: "\<exists>v. props m (int i) = Some v" if "i < alength m" for i
  proof -
    have "int i \<in> {0..<int (alength m)}" using that by simp
    then have "int i \<in> dom (props m)" using assms unfolding grid_def by blast
    then show ?thesis by blast
  qed
  have "List.map_filter (\<lambda>i. props m (int i)) xs = map (\<lambda>i. readAt m (int i)) xs"
    if "set xs \<subseteq> {0..<alength m}" for xs
    using that
  proof (induction xs)
    case Nil
    show ?case by (simp add: List.map_filter_simps)
  next
    case (Cons i xs)
    then have "i < alength m" by simp
    from ex [OF this] obtain v where "props m (int i) = Some v" ..
    with Cons show ?case by (simp add: List.map_filter_simps readAt_def)
  qed
  then show ?thesis by (simp add: elements_def)
qed

lemma mapMatrix_square_grid:
  assumes "width m = height m" "alength m = width m * height m"
  shows "grid (mapMatrix m fn)"
  using assms by (auto simp: grid_def mapMatrix_square dom_def)

lemma mapMatrix_square_elements:
  assumes "width m = height m" "grid m"
  shows "elements (mapMatrix m (\<lambda>v _ _. g v)) = map g (elements m)"
proof -
  have len: "alength m = width m * height m" using assms by (simp add: grid_def)
  have "elements (mapMatrix m (\<lambda>v _ _. g v))
        = map (\<lambda>i. readAt (mapMatrix m (\<lambda>v _ _. g v)) (int i)) [0..<alength m]"
    using grid_elements [OF mapMatrix_square_grid [OF assms(1) len]]
    by (simp add: mapMatrix_square [OF assms(1) len])
  also have "\<dots> = map (\<lambda>i. g (readAt m (int i))) [0..<alength m]"
    by (rule map_cong) (simp_all add: readAt_def mapMatrix_square [OF assms(1) len])
  also have "\<dots> = map g (elements m)"
    by (simp add: grid_elements [OF assms(2)])
  finally show ?thesis .
qed

section \<open>The maximum of a normalized matrix\<close>

lemma js_gt_div_pos:
  "0 < c \<Longrightarrow> js_gt (js_div x (Num c)) (js_div y (Num c)) = js_gt x y"
  by (cases x; cases y) (simp_all add: divide_less_cancel)

lemma larger_div_pos:
  "0 < c \<Longrightarrow> larger (js_div x (Num c)) (js_div y (Num c)) = js_div (larger x y) (Num c)"
  by (simp add: larger_def js_gt_div_pos)

lemma foldl_larger_div_pos:
  "0 < c \<Longrightarrow>
   foldl larger (js_div v (Num c)) (map (\<lambda>x. js_div x (Num c)) vs)
   = js_div (foldl larger v vs) (Num c)"
  by (induction vs arbitrary: v) (simp_all add: larger_div_pos)

lemma reduceLarger_div_pos:
  "0 < c \<Longrightarrow> reduceLarger vs = Inr (Num c) \<Longrightarrow>
   reduceLarger (map (\<lambda>x. js_div x (Num c)) vs) = Inr (Num 1)"
  by (cases vs) (auto simp: foldl_larger_div_pos)

lemma foldl_larger_Num:
  "foldl larger (Num r) (map Num rs) = Num (Max (set (r # rs)))"
proof -
  have "foldl larger (Num r) (map Num rs) = Num (fold max rs r)"
    by (induction rs arbitrary: r) (auto simp: larger_def max_def)
  then show ?thesis by (simp only: Max.set_eq_fold)
qed

lemma js_div_div_one: "0 < c \<Longrightarrow> js_div (js_div v (Num c)) (Num 1) = js_div v (Num c)"
  by (cases v) simp_all

lemma grid_matrixOf: "length vs = w * h \<Longrightarrow> grid (matrixOf w h vs)"
  by (auto simp: grid_def matrixOf_def dom_def)

lemma normalize_positive:
  assumes g: "grid m" and sq: "width m = height m"
    and mx: "maxValueOf m = Inr (Num c)" and c: "0 < c"
  defines "n \<equiv> mapMatrix m (\<lambda>v _ _. js_div v (Num c))"
  shows "normalizeMatrix m = Inr n" "maxValueOf n = Inr (Num 1)"
    "normalizeMatrix n = Inr n"
proof -
  have len: "alength m = width m * height m" using g by (simp add: grid_def)
  show nm: "normalizeMatrix m = Inr n"
    by (simp add: normalizeMatrix_def mx n_def)
  have "elements n = map (\<lambda>x. js_div x (Num c)) (elements m)"
    unfolding n_def by (rule mapMatrix_square_elements [OF sq g])
  then show mn: "maxValueOf n = Inr (Num 1)"
    using mx c by (simp add: maxValueOf_def reduceLarger_div_pos)
  have sqn: "width n = height n" and lenn: "alength n = width n * height n"
    using sq len by (simp_all add: n_def mapMatrix_square)
  have pn: "props n k =
      (if 0 \<le> k \<and> k < int (alength m) then Some (js_div (readAt m k) (Num c)) else None)" for k
    unfolding n_def by (simp add: mapMatrix_square [OF sq len])
  have "mapMatrix n (\<lambda>v _ _. js_div v (Num 1)) = n"
  proof (rule matrix.equality)
    show "props (mapMatrix n (\<lambda>v _ _. js_div v (Num 1))) = props n"
    proof
      fix k
      have "alength n = alength m" by (simp add: n_def mapMatrix_square [OF sq len])
      then show "props (mapMatrix n (\<lambda>v _ _. js_div v (Num 1))) k = props n k"
        using c by (simp add: mapMatrix_square [OF sqn lenn] readAt_def pn js_div_div_one)
    qed
  qed (simp_all add: mapMatrix_square [OF sqn lenn])
  then show "normalizeMatrix n = Inr n"
    by (simp add: normalizeMatrix_def mn)
qed

text \<open>
  Claim C7, as amended. For a square grid whose maximum, as \<open>maxValueOf\<close> computes it,
  is a positive finite number, normalizing twice gives the matrix that normalizing once
  gives, in every property.
\<close>

theorem normalize_idempotent:
  assumes "grid m" "width m = height m" "maxValueOf m = Inr (Num c)" "0 < c"
  shows "\<exists>n. normalizeMatrix m = Inr n \<and> normalizeMatrix n = Inr n"
  using normalize_positive(1,3) [OF assms] by blast

theorem normalize_idempotent_witness:
  "\<exists>n. normalizeMatrix (matrixOf 2 2 [Num 1, Num 2, Num 4, Num 4]) = Inr n
       \<and> normalizeMatrix n = Inr n"
proof -
  have "grid (matrixOf 2 2 [Num 1, Num 2, Num 4, Num 4])"
    by (rule grid_matrixOf) simp
  moreover have "width (matrixOf 2 2 [Num 1, Num 2, Num 4, Num 4])
      = height (matrixOf 2 2 [Num 1, Num 2, Num 4, Num 4])"
    by (simp add: matrixOf_def)
  moreover have "maxValueOf (matrixOf 2 2 [Num 1, Num 2, Num 4, Num 4]) = Inr (Num 4)"
    by (simp add: matrix_eval)
  moreover have "(0::real) < 4" by simp
  ultimately show ?thesis by (rule normalize_idempotent)
qed

text \<open>
  Claim C8, as amended. For a square grid whose cells are all finite numbers, one of them
  positive, the maximum of the normalized matrix is 1.
\<close>

theorem normalize_max_one:
  assumes "grid m" "width m = height m" "elements m = map Num rs" "\<exists>r \<in> set rs. 0 < r"
  shows "\<exists>n. normalizeMatrix m = Inr n \<and> maxValueOf n = Inr (Num 1)"
proof -
  from assms(4) obtain r0 where r0: "r0 \<in> set rs" "0 < r0" by blast
  then obtain r rs' where rs: "rs = r # rs'" by (cases rs) auto
  have mx: "maxValueOf m = Inr (Num (Max (set rs)))"
    by (simp add: maxValueOf_def assms(3) rs foldl_larger_Num)
  have "r0 \<le> Max (set rs)" using r0 by simp
  with r0 have "0 < Max (set rs)" by linarith
  from normalize_positive(1,2) [OF assms(1,2) mx this] show ?thesis by blast
qed

theorem normalize_max_one_witness:
  "\<exists>n. normalizeMatrix (matrixOf 2 2 [Num 1, Num 0, Num (- 3), Num 4]) = Inr n
       \<and> maxValueOf n = Inr (Num 1)"
proof -
  have "grid (matrixOf 2 2 [Num 1, Num 0, Num (- 3), Num 4])"
    by (rule grid_matrixOf) simp
  moreover have "width (matrixOf 2 2 [Num 1, Num 0, Num (- 3), Num 4])
      = height (matrixOf 2 2 [Num 1, Num 0, Num (- 3), Num 4])"
    by (simp add: matrixOf_def)
  moreover have "elements (matrixOf 2 2 [Num 1, Num 0, Num (- 3), Num 4])
      = map Num [1, 0, - 3, 4]"
    by (simp add: matrix_eval)
  moreover have "\<exists>r \<in> set [1, 0, - 3, 4 :: real]. 0 < r" by simp
  ultimately show ?thesis by (rule normalize_max_one)
qed

section \<open>The loops of addMatrix as a sequence of accumulations\<close>

lemma addAll_simps [simp]:
  "addAll [] d = d"
  "addAll ((k, v) # ws) d = addAll ws (addAt k v d)"
  "addAll (ws @ ws') d = addAll ws' (addAll ws d)"
  by (simp_all add: addAll_def)

lemma addAt_fields [simp]:
  "width (addAt k v d) = width d" "height (addAt k v d) = height d"
  by (simp_all add: addAt_def)

lemma addAll_fields [simp]:
  "width (addAll ws d) = width d" "height (addAll ws d) = height d"
  by (induction ws arbitrary: d) auto

lemma addMatrix_inner:
  "width d = width dst \<Longrightarrow> height d = height dst \<Longrightarrow>
   fold (\<lambda>y d.
      if int x + ox \<ge> int (width d) then d
      else if int y + oy \<ge> int (height d) then d
      else let oldValue = getXY d (int x + ox) (int y + oy);
               newValue = getXY src (int x) (int y)
           in setXY d (int x + ox) (int y + oy) (js_add oldValue newValue)) ys d
   = addAll (concat (map (\<lambda>y.
         if int x + ox \<ge> int (width dst) then []
         else if int y + oy \<ge> int (height dst) then []
         else [(indexXY dst (int x + ox) (int y + oy), getXY src (int x) (int y))]) ys)) d"
proof (induction ys arbitrary: d)
  case Nil
  show ?case by simp
next
  case (Cons y ys)
  have step: "setXY d (int x + ox) (int y + oy)
                (js_add (getXY d (int x + ox) (int y + oy)) (getXY src (int x) (int y)))
              = addAt (indexXY dst (int x + ox) (int y + oy)) (getXY src (int x) (int y)) d"
    using Cons.prems by (simp add: setXY_def getXY_def addAt_def indexXY_def)
  show ?case
    using Cons.prems by (simp add: Let_def step Cons.IH)
qed

lemma addMatrix_outer:
  "width d = width dst \<Longrightarrow> height d = height dst \<Longrightarrow>
   fold (\<lambda>x d. fold (\<lambda>y d.
      if int x + ox \<ge> int (width d) then d
      else if int y + oy \<ge> int (height d) then d
      else let oldValue = getXY d (int x + ox) (int y + oy);
               newValue = getXY src (int x) (int y)
           in setXY d (int x + ox) (int y + oy) (js_add oldValue newValue)) ys d) xs d
   = addAll (concat (map (\<lambda>x. concat (map (\<lambda>y.
         if int x + ox \<ge> int (width dst) then []
         else if int y + oy \<ge> int (height dst) then []
         else [(indexXY dst (int x + ox) (int y + oy), getXY src (int x) (int y))]) ys)) xs)) d"
proof (induction xs arbitrary: d)
  case Nil
  show ?case by simp
next
  case (Cons x xs)
  show ?case
    using Cons.prems
    by (simp only: fold_Cons comp_apply addMatrix_inner [OF Cons.prems] list.map concat.simps
        addAll_simps) (simp add: Cons.IH)
qed

lemma addMatrix_addAll:
  "addMatrix src dst ox oy = addAll (stampCells src dst ox oy) dst"
  unfolding addMatrix_def stampCells_def by (rule addMatrix_outer) simp_all

lemma addMatrix_fields [simp]:
  "width (addMatrix src dst ox oy) = width dst" "height (addMatrix src dst ox oy) = height dst"
  by (simp_all add: addMatrix_addAll)

lemma stampCells_dims:
  assumes "width d = width dst" "height d = height dst"
  shows "stampCells src d ox oy = stampCells src dst ox oy"
  unfolding stampCells_def indexXY_def assms by (rule refl)

lemma addAt_commute:
  "k \<noteq> k' \<Longrightarrow> addAt k v (addAt k' v' d) = addAt k' v' (addAt k v d)"
  by (rule matrix.equality)
    (auto simp: addAt_def writeAt_def readAt_def fun_upd_twist max.commute max.left_commute)

lemma addAll_addAt_commute:
  "k \<notin> fst ` set ws \<Longrightarrow> addAll ws (addAt k v d) = addAt k v (addAll ws d)"
proof (induction ws arbitrary: d)
  case Nil
  show ?case by simp
next
  case (Cons kv ws)
  obtain k' v' where kv: "kv = (k', v')" by (cases kv)
  from Cons.prems have ne: "k \<noteq> k'" and nin: "k \<notin> fst ` set ws" by (auto simp: kv)
  show ?case
    by (simp add: kv addAt_commute [OF ne [symmetric]] Cons.IH [OF nin])
qed

lemma addAll_commute:
  "fst ` set as \<inter> fst ` set bs = {} \<Longrightarrow> addAll bs (addAll as d) = addAll as (addAll bs d)"
proof (induction as arbitrary: d)
  case Nil
  show ?case by simp
next
  case (Cons kv as)
  obtain k v where kv: "kv = (k, v)" by (cases kv)
  from Cons.prems have nin: "k \<notin> fst ` set bs" and dj: "fst ` set as \<inter> fst ` set bs = {}"
    by (auto simp: kv)
  show ?case
    by (simp add: kv Cons.IH [OF dj] addAll_addAt_commute [OF nin])
qed

text \<open>
  Claim C9. Two stamps that write disjoint sets of destination cells (flat indices of the
  destination array) commute: stamping \<open>a\<close> and then \<open>b\<close> gives the same matrix, in
  every property, as stamping \<open>b\<close> and then \<open>a\<close>. The proof uses no algebraic law of
  the addition.
\<close>

theorem addMatrix_commute:
  assumes "writtenCells a dst xa ya \<inter> writtenCells b dst xb yb = {}"
  shows "addMatrix b (addMatrix a dst xa ya) xb yb = addMatrix a (addMatrix b dst xb yb) xa ya"
proof -
  have sb: "stampCells b (addMatrix a dst xa ya) xb yb = stampCells b dst xb yb"
    by (rule stampCells_dims) simp_all
  have sa: "stampCells a (addMatrix b dst xb yb) xa ya = stampCells a dst xa ya"
    by (rule stampCells_dims) simp_all
  have "addMatrix b (addMatrix a dst xa ya) xb yb
        = addAll (stampCells b (addMatrix a dst xa ya) xb yb) (addMatrix a dst xa ya)"
    by (rule addMatrix_addAll)
  also have "\<dots> = addAll (stampCells b dst xb yb) (addAll (stampCells a dst xa ya) dst)"
    by (simp only: sb) (simp only: addMatrix_addAll)
  also have "\<dots> = addAll (stampCells a dst xa ya) (addAll (stampCells b dst xb yb) dst)"
    using assms unfolding writtenCells_def by (rule addAll_commute)
  also have "\<dots> = addAll (stampCells a (addMatrix b dst xb yb) xa ya) (addMatrix b dst xb yb)"
    by (simp only: sa) (simp only: addMatrix_addAll)
  also have "\<dots> = addMatrix a (addMatrix b dst xb yb) xa ya"
    by (rule addMatrix_addAll [symmetric])
  finally show ?thesis .
qed

theorem addMatrix_commute_witness:
  "addMatrix (makeMatrix 2 2 (Num 2)) (addMatrix (makeMatrix 2 2 (Num 1)) (makeMatrix 4 4 (Num 0)) 0 0) 2 3
   = addMatrix (makeMatrix 2 2 (Num 1)) (addMatrix (makeMatrix 2 2 (Num 2)) (makeMatrix 4 4 (Num 0)) 2 3) 0 0"
proof -
  have "writtenCells (makeMatrix 2 2 (Num 1)) (makeMatrix 4 4 (Num 0)) 0 0
        \<inter> writtenCells (makeMatrix 2 2 (Num 2)) (makeMatrix 4 4 (Num 0)) 2 3 = {}"
    by (simp add: writtenCells_def stampCells_def matrix_eval)
  then show ?thesis by (rule addMatrix_commute)
qed

section \<open>The kernel\<close>

lemma js_pow_two: "js_pow (Num a) (Num 2) = Num (a\<^sup>2)"
proof -
  have "real_of_int \<lfloor>2::real\<rfloor> = 2" by simp
  moreover have "a powi \<lfloor>2::real\<rfloor> = a\<^sup>2" by simp
  ultimately show ?thesis by (simp del: of_int_floor_cancel)
qed

lemma blobProfile_value: "blobProfile v x y = Num (blobValue x y)"
proof -
  have cap: "js_sqrt (js_add (js_pow (Num 8) (Num 2)) (js_pow (Num 8) (Num 2)))
             = Num (sqrt (8\<^sup>2 + 8\<^sup>2))"
    by (simp only: js_pow_two js_add.simps js_sqrt.simps) simp
  have d: "js_sqrt (js_add (js_pow (js_sub (Num (real x)) (Num 8)) (Num 2))
                           (js_pow (js_sub (Num (real y)) (Num 8)) (Num 2)))
           = Num (sqrt ((real x - 8)\<^sup>2 + (real y - 8)\<^sup>2))"
  proof -
    have nn: "\<not> (real x - 8)\<^sup>2 + (real y - 8)\<^sup>2 < 0"
      by (simp add: not_less)
    have "js_sub (Num (real x)) (Num 8) = Num (real x - 8)"
      "js_sub (Num (real y)) (Num 8) = Num (real y - 8)"
      by (simp_all add: js_sub_def)
    then show ?thesis
      by (simp only: js_pow_two js_add.simps js_sqrt.simps nn if_False)
  qed
  have nz: "sqrt (8\<^sup>2 + 8\<^sup>2) \<noteq> (0::real)" by simp
  show ?thesis
    unfolding blobProfile_def Let_def cap d
    using nz by (simp only: js_div.simps js_mul.simps js_sub_def js_neg.simps js_add.simps
        js_pow_two blobValue_def if_False) simp
qed

lemma getXY_mapMatrix_square:
  assumes "width m = height m" "alength m = width m * height m"
    and "x < height m" "y < height m"
  shows "getXY (mapMatrix m fn) (int x) (int y) = fn (getXY m (int x) (int y)) x y"
proof -
  define n where "n = height m"
  define k where "k = int y * int n + int x"
  have "int y + 1 \<le> int n" using assms(4) by (simp add: n_def)
  then have "(int y + 1) * int n \<le> int n * int n"
    by (intro mult_right_mono) simp_all
  then have "k < int n * int n" using assms(3) by (simp add: k_def n_def algebra_simps)
  then have r: "0 \<le> k \<and> k < int (alength m)"
    using assms(1,2) by (simp add: k_def n_def)
  have xy: "nat (k mod int n) = x" "nat (k div int n) = y"
    using square_index_split [of x n k y] assms(3) by (simp_all add: k_def n_def)
  have "props (mapMatrix m fn) k = Some (fn (readAt m k) x y)"
    using mapMatrix_square(1) [OF assms(1,2), of fn k] r xy by (simp add: n_def)
  then show ?thesis
    by (simp add: getXY_def readAt_def indexXY_def k_def n_def)
qed

lemma makeMatrix_fields [simp]:
  "width (makeMatrix w h v) = w" "height (makeMatrix w h v) = h"
  "alength (makeMatrix w h v) = w * h"
  by (simp_all add: makeMatrix_def)

lemma grid_makeMatrix: "grid (makeMatrix w h v)"
  by (auto simp: grid_def makeMatrix_def dom_def)

lemma blobRaw_fields:
  "width blobRaw = 17" "height blobRaw = 17" "alength blobRaw = 17 * 17" "grid blobRaw"
  by (simp_all add: blobRaw_def mapMatrix_square mapMatrix_square_grid)

lemma blobRaw_cell:
  "x < 17 \<Longrightarrow> y < 17 \<Longrightarrow> getXY blobRaw (int x) (int y) = Num (blobValue x y)"
  by (simp add: blobRaw_def getXY_mapMatrix_square blobProfile_value)

lemma blobValue_le_one:
  assumes "x < 17" "y < 17"
  shows "blobValue x y \<le> 1"
proof -
  define d where "d = sqrt ((real x - 8)\<^sup>2 + (real y - 8)\<^sup>2)"
  define cap :: real where "cap = sqrt (8\<^sup>2 + 8\<^sup>2)"
  have "\<bar>real x - 8\<bar> \<le> 8" "\<bar>real y - 8\<bar> \<le> 8" using assms by (simp_all add: abs_le_iff)
  then have "(real x - 8)\<^sup>2 \<le> 8\<^sup>2" "(real y - 8)\<^sup>2 \<le> 8\<^sup>2"
    by (simp_all only: abs_le_square_iff [symmetric]) simp_all?
  then have "d \<le> cap" unfolding d_def cap_def by (intro real_sqrt_le_mono) linarith
  moreover have "0 \<le> d" by (simp add: d_def)
  moreover have "0 < cap" by (simp add: cap_def)
  ultimately have "0 \<le> d / cap" "d / cap \<le> 1" by simp_all
  then have "\<bar>1 - d / cap * (11 / 10)\<bar> \<le> 1" by (simp add: abs_le_iff)
  then have "(1 - d / cap * (11 / 10))\<^sup>2 \<le> 1\<^sup>2"
    by (simp only: abs_le_square_iff [symmetric]) simp?
  then show ?thesis by (simp add: blobValue_def d_def cap_def)
qed

lemma blobValue_centre: "blobValue 8 8 = 1"
  by (simp add: blobValue_def)

lemma blobRaw_elements:
  "elements blobRaw = map Num (map (\<lambda>i. blobValue (i mod 17) (i div 17)) [0..<17 * 17])"
proof -
  have "readAt blobRaw (int i) = Num (blobValue (i mod 17) (i div 17))" if "i < 17 * 17" for i
  proof -
    have "getXY blobRaw (int (i mod 17)) (int (i div 17))
          = Num (blobValue (i mod 17) (i div 17))"
      using that by (intro blobRaw_cell) simp_all
    moreover have "int (i div 17) * 17 + int (i mod 17) = int i"
      by presburger
    ultimately show ?thesis
      by (simp add: getXY_def indexXY_def blobRaw_fields)
  qed
  then show ?thesis
    by (simp add: grid_elements [OF blobRaw_fields(4)] blobRaw_fields(3))
qed

lemma blobRaw_max: "maxValueOf blobRaw = Inr (Num 1)"
proof -
  define rs where "rs = map (\<lambda>i. blobValue (i mod 17) (i div 17)) [0..<17 * 17]"
  have ne: "rs \<noteq> []" by (simp add: rs_def)
  then obtain r rs' where rs: "rs = r # rs'" by (cases rs) auto
  have "reduceLarger (map Num rs) = Inr (Num (Max (set rs)))"
    by (simp add: rs foldl_larger_Num)
  moreover have "Max (set rs) = 1"
  proof (rule Max_eqI)
    show "finite (set rs)" by simp
    show "y \<le> 1" if "y \<in> set rs" for y
    proof -
      from that obtain i where "i < 17 * 17" "y = blobValue (i mod 17) (i div 17)"
        by (auto simp: rs_def)
      then show ?thesis by (simp add: blobValue_le_one)
    qed
    have "(\<lambda>i. blobValue (i mod 17) (i div 17)) 144 \<in> set rs"
      unfolding rs_def set_map by (rule imageI) simp
    then show "1 \<in> set rs" by (simp add: blobValue_centre)
  qed
  ultimately show ?thesis
    by (simp add: maxValueOf_def blobRaw_elements rs_def)
qed

lemma blob_value:
  "blob = Inr (mapMatrix (mapMatrix blobRaw (\<lambda>v _ _. js_div v (Num 1)))
                 (\<lambda>x _ _. js_mul x (Num (1 / 10))))"
  by (simp add: blob_def normalizeMatrix_def blobRaw_max)

lemma blob_cell:
  assumes "x < 17" "y < 17"
  shows "\<exists>b. blob = Inr b \<and> width b = 17 \<and> height b = 17 \<and> alength b = 17 * 17
            \<and> getXY b (int x) (int y) = Num (blobValue x y / 1 * (1 / 10))"
proof -
  define n where "n = mapMatrix blobRaw (\<lambda>v _ _. js_div v (Num 1))"
  have nf: "width n = height n" "alength n = width n * height n" "height n = 17"
    by (simp_all add: n_def blobRaw_fields mapMatrix_square)
  have "getXY n (int x) (int y) = js_div (Num (blobValue x y)) (Num 1)"
    using assms by (simp add: n_def getXY_mapMatrix_square blobRaw_fields blobRaw_cell)
  then have "getXY (mapMatrix n (\<lambda>x _ _. js_mul x (Num (1 / 10)))) (int x) (int y)
             = Num (blobValue x y / 1 * (1 / 10))"
    using assms nf by (simp add: getXY_mapMatrix_square)
  moreover have "alength (mapMatrix n (\<lambda>x _ _. js_mul x (Num (1 / 10)))) = 17 * 17"
    using nf by (simp add: mapMatrix_square)
  ultimately show ?thesis
    using nf by (simp add: blob_value n_def [symmetric])
qed

text \<open>
  Claim C2, as amended. The kernel is a 17 x 17 grid. Before normalization its cell at
  \<open>(x, y)\<close> is \<open>(1 - (d / cap) * 1.1)^2\<close> with \<open>d\<close> the distance from \<open>(x, y)\<close> to
  \<open>(8, 8)\<close> and \<open>cap\<close> the square root of 128; the maximum of that grid is 1; and the
  cell of the kernel is the cell of that grid divided by the maximum and multiplied by
  1/10.
\<close>

theorem blob_cells:
  assumes "x < 17" "y < 17"
  shows "getXY blobRaw (int x) (int y)
           = Num ((1 - sqrt ((real x - 8)\<^sup>2 + (real y - 8)\<^sup>2) / sqrt 128 * (11 / 10))\<^sup>2)
         \<and> maxValueOf blobRaw = Inr (Num 1)
         \<and> (\<exists>b. blob = Inr b \<and> width b = 17 \<and> height b = 17 \<and> alength b = 17 * 17
               \<and> getXY b (int x) (int y)
                   = Num ((1 - sqrt ((real x - 8)\<^sup>2 + (real y - 8)\<^sup>2) / sqrt 128 * (11 / 10))\<^sup>2
                          / 1 * (1 / 10)))"
proof -
  have "blobValue x y = (1 - sqrt ((real x - 8)\<^sup>2 + (real y - 8)\<^sup>2) / sqrt 128 * (11 / 10))\<^sup>2"
    by (simp add: blobValue_def)
  with blobRaw_cell [OF assms] blobRaw_max blob_cell [OF assms] show ?thesis
    by (simp only: )
qed

theorem blob_cells_witness:
  "getXY blobRaw 0 0 = Num (1 / 100)
   \<and> maxValueOf blobRaw = Inr (Num 1)
   \<and> (\<exists>b. blob = Inr b \<and> width b = 17 \<and> height b = 17 \<and> alength b = 17 * 17
         \<and> getXY b 0 0 = Num (1 / 1000))"
  using blob_cells [of 0 0] by (simp add: power2_eq_square)

text \<open>
  The claim as stated fails at the corner \<open>(0, 0)\<close>, where the distance to the centre is
  \<open>cap\<close>: the cell before normalization is \<open>(1 - 1.1)^2 = 1/100\<close>, and the formula of
  the claim, \<open>(1 - d / (cap * 1.1))^2\<close>, gives \<open>1/121\<close>.
\<close>

theorem blob_corner_counterexample:
  "getXY blobRaw 0 0 = Num (1 / 100)
   \<and> (1 - sqrt ((0 - 8)\<^sup>2 + (0 - 8)\<^sup>2) / (sqrt 128 * (11 / 10)))\<^sup>2 = (1 / 121 :: real)
   \<and> getXY blobRaw 0 0
       \<noteq> Num ((1 - sqrt ((0 - 8)\<^sup>2 + (0 - 8)\<^sup>2) / (sqrt 128 * (11 / 10)))\<^sup>2)"
proof -
  have a: "getXY blobRaw 0 0 = Num (1 / 100)"
    using blobRaw_cell [of 0 0] by (simp add: blobValue_def power2_eq_square)
  have b: "(1 - sqrt ((0 - 8)\<^sup>2 + (0 - 8)\<^sup>2) / (sqrt 128 * (11 / 10)))\<^sup>2 = (1 / 121 :: real)"
    by (simp add: power2_eq_square)
  show ?thesis by (simp only: a b) simp
qed

section \<open>Where the length is kept: matrices at least as wide as high\<close>

text \<open>
  The writes beyond the end shown above need \<open>height > width\<close>. When the height is at
  most the width, every flat index of a coordinate in range lies below
  \<open>width * height\<close>: \<open>mapMatrix\<close> keeps the length, and \<open>addMatrix\<close> with offsets
  that are not negative writes inside the destination only.
\<close>

lemma flat_index_bound:
  fixes X Y W H :: int
  assumes "0 \<le> X" "X < W" "0 \<le> Y" "Y < H" "H \<le> W"
  shows "0 \<le> Y * H + X" "Y * H + X < W * H"
proof -
  show "0 \<le> Y * H + X" using assms by simp
  have "Y * H \<le> (H - 1) * H"
    using assms by (intro mult_right_mono) simp_all
  also have "\<dots> \<le> (H - 1) * W"
    using assms by (intro mult_left_mono) simp_all
  finally have "Y * H + X < (H - 1) * W + W" using assms by linarith
  then show "Y * H + X < W * H" by (simp add: algebra_simps)
qed

lemma mapMatrix_length_wide:
  assumes "alength m = width m * height m" "height m \<le> width m"
  shows "alength (mapMatrix m fn) = alength m"
proof -
  have "k < int (alength m)" if "k \<in> fst ` set (mapWrites m fn)" for k
  proof -
    from that obtain x y where "x < width m" "y < height m"
      and k: "k = int y * int (height m) + int x"
      by (auto simp: mapWrites_set indexXY_def)
    then have "int y * int (height m) + int x < int (width m) * int (height m)"
      using assms(2) by (intro flat_index_bound) simp_all
    then show ?thesis by (simp add: k assms(1))
  qed
  then show ?thesis
    by (simp add: mapMatrix_writeAll alength_writeAll)
qed

lemma writtenCells_bound:
  assumes "height dst \<le> width dst" "0 \<le> ox" "0 \<le> oy"
  shows "writtenCells src dst ox oy \<subseteq> {0..<int (width dst * height dst)}"
proof
  fix k assume "k \<in> writtenCells src dst ox oy"
  then obtain x y where t: "int x + ox < int (width dst)" "int y + oy < int (height dst)"
    and k: "k = (int y + oy) * int (height dst) + (int x + ox)"
    by (auto simp: writtenCells_def stampCells_def indexXY_def not_le split: if_splits)
  have b: "0 \<le> int x + ox" "int x + ox < int (width dst)" "0 \<le> int y + oy"
    "int y + oy < int (height dst)" "int (height dst) \<le> int (width dst)"
    using assms t by simp_all
  have "0 \<le> (int y + oy) * int (height dst) + (int x + ox)"
    "(int y + oy) * int (height dst) + (int x + ox) < int (width dst) * int (height dst)"
    by (rule flat_index_bound [OF b])+
  then show "k \<in> {0..<int (width dst * height dst)}" by (simp add: k)
qed

lemma alength_addAll:
  "(\<And>k. k \<in> fst ` set ws \<Longrightarrow> k < int (alength d)) \<Longrightarrow> alength (addAll ws d) = alength d"
proof (induction ws arbitrary: d)
  case Nil
  then show ?case by simp
next
  case (Cons kv ws)
  obtain k0 v0 where kv: "kv = (k0, v0)" by (cases kv)
  have "k0 < int (alength d)" using Cons.prems [of k0] by (simp add: kv)
  then have l: "alength (addAt k0 v0 d) = alength d"
    by (auto simp: addAt_def writeAt_def)
  have "alength (addAll ws (addAt k0 v0 d)) = alength (addAt k0 v0 d)"
    using Cons.prems by (intro Cons.IH) (auto simp: l)
  then show ?case by (simp add: kv l)
qed

lemma addMatrix_length_wide:
  assumes "alength dst = width dst * height dst" "height dst \<le> width dst" "0 \<le> ox" "0 \<le> oy"
  shows "alength (addMatrix src dst ox oy) = alength dst"
proof -
  have "k < int (alength dst)" if "k \<in> fst ` set (stampCells src dst ox oy)" for k
    using writtenCells_bound [OF assms(2-4), of src] that assms(1)
    by (auto simp: writtenCells_def)
  then show ?thesis
    by (simp add: addMatrix_addAll alength_addAll)
qed

section \<open>A frame without stamps on a square matrix of zeros\<close>

text \<open>
  On a square persistent matrix of zeros a frame with velocity 0 and a finite attenuation
  input hands \<open>drawMatrix\<close> a matrix whose cells all are \<open>NaN ** contrast\<close> (that is
  \<open>NaN\<close>, or 1 for the contrast 0) and leaves the globals as they were.
\<close>

lemma makeMatrix_elements: "elements (makeMatrix w h v) = replicate (w * h) v"
proof -
  have "map (\<lambda>i. readAt (makeMatrix w h v) (int i)) [0..<w * h] = map (\<lambda>i. v) [0..<w * h]"
    by (rule map_cong) (simp_all add: readAt_def makeMatrix_def flip: of_nat_mult)
  then show ?thesis
    by (simp add: grid_elements [OF grid_makeMatrix] map_replicate_const)
qed

lemma foldl_larger_replicate: "foldl larger v (replicate k v) = v"
  by (induction k) (simp_all add: larger_def)

lemma makeMatrix_max: "0 < w * h \<Longrightarrow> maxValueOf (makeMatrix w h v) = Inr v"
  by (cases "w * h") (simp_all add: maxValueOf_def makeMatrix_elements foldl_larger_replicate)

lemma mapMatrix_makeMatrix_square:
  "mapMatrix (makeMatrix n n v) (\<lambda>v _ _. g v) = makeMatrix n n (g v)"
proof (rule matrix.equality)
  show "props (mapMatrix (makeMatrix n n v) (\<lambda>v _ _. g v)) = props (makeMatrix n n (g v))"
    by (rule ext) (simp add: mapMatrix_square readAt_def, simp add: makeMatrix_def)
qed (simp_all add: mapMatrix_square)

lemma js_pow_eight: "\<exists>t. js_pow (Num b) (Num 8) = Num t"
  by simp

lemma animate_square_zero:
  assumes "0 < n" "g_matrix g = makeMatrix n n (Num 0)"
  shows "\<exists>out g'. animate contrast 0 (Num a) g = Inr (out, g')
           \<and> out = makeMatrix n n (js_pow NaN contrast)
           \<and> g' = g"
proof -
  obtain t where t: "js_pow (js_sub (Num 1) (Num a)) (Num 8) = Num t"
    using js_pow_eight [of "1 - a"] by (auto simp: js_sub_def)
  have mx: "maxValueOf (makeMatrix n n (Num 0)) = Inr (Num 0)"
    using assms(1) by (intro makeMatrix_max) simp
  have "g\<lparr>g_matrix := makeMatrix n n (Num 0)\<rparr> = g"
    using assms(2) by simp
  then show ?thesis
    by (simp add: animate_def assms(2) normalizeMatrix_def mx mapMatrix_makeMatrix_square t
        js_sub_def)
qed

end
